theory Spec2Isabelle
  imports Main
begin

section \<open>Text primitives of the Python runtime\<close>

text \<open>
  The program is \<^verbatim>\<open>WingetLoop.py\<close>. Its texts are Python \<^verbatim>\<open>str\<close> values; here a
  text is a \<^typ>\<open>string\<close> whose characters are the code points 0 to 255, so every
  statement below is about reports and console lines over that alphabet.

  \<^verbatim>\<open>str.isspace\<close>, \<^verbatim>\<open>str.strip()\<close> and the regular expression class \<^verbatim>\<open>\s\<close> agree
  on what a whitespace character is. Below code point 256 these are tab, line feed,
  vertical tab, form feed, carriage return, the four separators 0x1C to 0x1F, the space,
  NEL (0x85) and the no-break space (0xA0).
\<close>

definition isspace :: "char \<Rightarrow> bool" where
  "isspace c = (c \<in> set [CHR 0x09, CHR 0x0A, CHR 0x0B, CHR 0x0C, CHR 0x0D,
      CHR 0x1C, CHR 0x1D, CHR 0x1E, CHR 0x1F, CHR 0x20, CHR 0x85, CHR 0xA0])"

text \<open>\<^verbatim>\<open>s.strip()\<close>: whitespace removed at both ends.\<close>

definition strip :: "string \<Rightarrow> string" where
  "strip s = rev (dropWhile isspace (rev (dropWhile isspace s)))"

text \<open>\<^verbatim>\<open>s.startswith(p)\<close> for one prefix \<open>p\<close>.\<close>

definition startswith :: "string \<Rightarrow> string \<Rightarrow> bool" where
  "startswith s p = (take (length p) s = p)"

text \<open>
  \<^verbatim>\<open>s.split('\n')\<close>: the pieces between line feeds. The result is never empty: a text
  without a line feed is its own single piece, and the empty text gives one empty piece.
\<close>

function split_nl :: "string \<Rightarrow> string list" where
  "split_nl s =
     (case dropWhile (\<lambda>c. c \<noteq> CHR 0x0A) s of
        [] \<Rightarrow> [s]
      | _ # rest \<Rightarrow> takeWhile (\<lambda>c. c \<noteq> CHR 0x0A) s # split_nl rest)"
  by pat_completeness auto
termination
proof (relation "measure length")
  show "wf (measure length)" by simp
next
  fix s :: string and x rest
  assume "dropWhile (\<lambda>c. c \<noteq> CHR 0x0A) s = x # rest"
  then have "length (x # rest) \<le> length s"
    by (metis length_dropWhile_le)
  then show "(rest, s) \<in> measure length" by simp
qed

declare split_nl.simps [simp del]

text \<open>
  \<^verbatim>\<open>re.search(r'\s{2,}', s)\<close>: the leftmost place where two whitespace characters
  stand side by side; the match is greedy, so it takes the whole run from there. The
  result is the text before the match and the text after it, or \<open>None\<close> when nothing
  matches.
\<close>

fun search_ws2 :: "string \<Rightarrow> (string \<times> string) option" where
  "search_ws2 (c # d # cs) =
     (if isspace c \<and> isspace d then Some ([], dropWhile isspace cs)
      else map_option (\<lambda>(before, after). (c # before, after)) (search_ws2 (d # cs)))"
| "search_ws2 _ = None"

lemma search_ws2_shorter:
  "search_ws2 s = Some (before, after) \<Longrightarrow> length after < length s"
proof (induction s arbitrary: before rule: search_ws2.induct)
  case (1 c d cs)
  show ?case
  proof (cases "isspace c \<and> isspace d")
    case True
    with "1.prems" have "after = dropWhile isspace cs" by simp
    moreover have "length (dropWhile isspace cs) \<le> length cs"
      by (rule length_dropWhile_le)
    ultimately show ?thesis by simp
  next
    case False
    with "1.prems" obtain b where "search_ws2 (d # cs) = Some (b, after)"
      by auto
    with "1.IH" False have "length after < length (d # cs)" by blast
    then show ?thesis by simp
  qed
qed simp_all

text \<open>
  \<^verbatim>\<open>re.split(r'\s{2,}', s)\<close>: the text is cut at every match, found from left to right,
  each search starting where the previous match ended.
\<close>

function re_split :: "string \<Rightarrow> string list" where
  "re_split s =
     (case search_ws2 s of
        None \<Rightarrow> [s]
      | Some (before, after) \<Rightarrow> before # re_split after)"
  by pat_completeness auto
termination
  by (relation "measure length") (auto simp: search_ws2_shorter)

declare re_split.simps [simp del]

text \<open>
  \<^verbatim>\<open>s.lower()\<close>. Below code point 256 the letters with a lowercase form are A to Z
  and 0xC0 to 0xDE without the multiplication sign 0xD7; the lowercase form is 32 code
  points higher.
\<close>

definition lower_char :: "char \<Rightarrow> char" where
  "lower_char c =
     (let n = (of_char c :: nat) in
      if (65 \<le> n \<and> n \<le> 90) \<or> (192 \<le> n \<and> n \<le> 222 \<and> n \<noteq> 215)
      then char_of (n + 32) else c)"

definition lower :: "string \<Rightarrow> string" where
  "lower s = map lower_char s"

text \<open>\<^verbatim>\<open>p in s\<close> for texts: \<open>p\<close> stands somewhere inside \<open>s\<close>.\<close>

fun contains :: "string \<Rightarrow> string \<Rightarrow> bool" where
  "contains [] p = (p = [])"
| "contains (c # cs) p = (startswith (c # cs) p \<or> contains cs p)"

text \<open>
  \<^verbatim>\<open>int(s)\<close> for a text \<open>s\<close> that has no whitespace at either end, which is what the
  program passes (the console line after \<^verbatim>\<open>strip()\<close>). The text is an optional sign
  followed by decimal digits, where single underscores may stand between two digits;
  below code point 256 the decimal digits are 0 to 9. Anything else raises
  \<^verbatim>\<open>ValueError\<close>, here \<open>None\<close>. The interpreter also refuses a text with more digits
  than its limit \<^verbatim>\<open>sys.get_int_max_str_digits()\<close>, a parameter here: 0 switches the limit
  off, the default is 4300, and no other value below 640 can be set.
\<close>

definition isdigit :: "char \<Rightarrow> bool" where
  "isdigit c = (48 \<le> (of_char c :: nat) \<and> (of_char c :: nat) \<le> 57)"

definition digit_value :: "char \<Rightarrow> nat" where
  "digit_value c = of_char c - 48"

fun digits_ok :: "string \<Rightarrow> bool" where
  "digits_ok [] = False"
| "digits_ok [c] = isdigit c"
| "digits_ok (c # d # cs) =
     (isdigit c \<and> (if d = CHR ''_'' then digits_ok cs else digits_ok (d # cs)))"

definition py_int :: "nat \<Rightarrow> string \<Rightarrow> int option" where
  "py_int max_str_digits s =
     (let negative = (take 1 s = ''-'');
          body = (if take 1 s = ''-'' \<or> take 1 s = ''+'' then drop 1 s else s);
          ds = filter isdigit body;
          magnitude = foldl (\<lambda>a c. 10 * a + digit_value c) 0 ds
      in if \<not> digits_ok body then None
         else if 0 < max_str_digits \<and> max_str_digits < length ds then None
         else Some (if negative then - int magnitude else int magnitude))"

section \<open>The output parser\<close>

text \<open>
  One upgradable package, the dictionary that \<^verbatim>\<open>parse_winget_output\<close> appends to its
  result. The keys are \<^verbatim>\<open>'name'\<close>, \<^verbatim>\<open>'id'\<close>, \<^verbatim>\<open>'version'\<close> and \<^verbatim>\<open>'available'\<close>; the
  field for \<^verbatim>\<open>'id'\<close> carries the name of the source variable, \<^verbatim>\<open>pkg_id\<close>.
\<close>

record candidate =
  name :: string
  pkg_id :: string
  version :: string
  available :: string

text \<open>The test of line 17: \<^verbatim>\<open>line.strip().startswith(('---', '===='))\<close>.\<close>

definition is_separator :: "string \<Rightarrow> bool" where
  "is_separator line =
     (startswith (strip line) ''---'' \<or> startswith (strip line) ''===='')"

text \<open>
  The first loop (lines 15 to 19): \<^verbatim>\<open>data_start_index\<close> is \<open>-1\<close> until a separator is
  met at index \<open>i\<close>, where it becomes \<open>i + 1\<close> and the loop breaks.
\<close>

fun find_data_start :: "nat \<Rightarrow> string list \<Rightarrow> int" where
  "find_data_start i [] = - 1"
| "find_data_start i (line # rest) =
     (if is_separator line then int i + 1 else find_data_start (Suc i) rest)"

text \<open>
  The second loop (lines 25 to 44) over the lines after the separator, with the list
  \<^verbatim>\<open>packages\<close> it appends to.
\<close>

fun collect_rows :: "string list \<Rightarrow> candidate list \<Rightarrow> candidate list" where
  "collect_rows [] packages = packages"
| "collect_rows (raw # rest) packages =
     (let line = strip raw in
      if line = [] \<or> startswith line ''Found'' then collect_rows rest packages
      else
        let parts = re_split line in
        if 5 \<le> length parts then
          let name = strip (parts ! 0); pkg_id = strip (parts ! 1) in
          if name \<noteq> [] \<and> pkg_id \<noteq> [] then
            collect_rows rest
              (packages @ [\<lparr>name = name, pkg_id = pkg_id,
                 version = strip (parts ! 2), available = strip (parts ! 3)\<rparr>])
          else collect_rows rest packages
        else collect_rows rest packages)"

definition parse_winget_output :: "string \<Rightarrow> candidate list" where
  "parse_winget_output output =
     (let packages = [];
          lines = split_nl (strip output);
          data_start_index = find_data_start 0 lines
      in if data_start_index = - 1 then packages
         else collect_rows (drop (nat data_start_index) lines) packages)"

text \<open>
  The body of \<^verbatim>\<open>parse_winget_output\<close> from line 14 on, as a function of the list of
  lines. It is the same computation as in \<open>parse_winget_output\<close>, named so that the
  lemmas below can speak about lists of lines.
\<close>

definition parse_lines :: "string list \<Rightarrow> candidate list" where
  "parse_lines ls = (if find_data_start 0 ls = - 1 then [] else collect_rows (drop (nat (find_data_start 0 ls)) ls) [])"

text \<open>
  Words for the statements about rows. The fields of a row are what line 32 computes from
  the trimmed row (line 26). A row is well formed when it passes every test of the second
  loop: it is not blank, does not start with \<^verbatim>\<open>Found\<close>, has at least five fields, and its
  first two fields are not blank. The candidate of a row is the dictionary of lines 39
  to 44.
\<close>

definition row_fields :: "string \<Rightarrow> string list" where
  "row_fields raw = re_split (strip raw)"

definition well_formed_row :: "string \<Rightarrow> bool" where
  "well_formed_row raw =
     (strip raw \<noteq> [] \<and> \<not> startswith (strip raw) ''Found'' \<and> 5 \<le> length (row_fields raw)
      \<and> strip (row_fields raw ! 0) \<noteq> [] \<and> strip (row_fields raw ! 1) \<noteq> [])"

definition candidate_of :: "string \<Rightarrow> candidate" where
  "candidate_of raw =
     \<lparr>name = strip (row_fields raw ! 0), pkg_id = strip (row_fields raw ! 1),
      version = strip (row_fields raw ! 2), available = strip (row_fields raw ! 3)\<rparr>"

text \<open>
  The separator test in the words of the specification, to be compared with
  \<open>is_separator\<close>, which is the test of the code: a trimmed line that begins with a run
  of three or more \<^verbatim>\<open>-\<close> or of three or more \<^verbatim>\<open>=\<close>.
\<close>

definition spec_is_separator :: "string \<Rightarrow> bool" where
  "spec_is_separator line =
     (startswith (strip line) ''---'' \<or> startswith (strip line) ''==='')"


section \<open>The selection loop\<close>

text \<open>
  \<^verbatim>\<open>run_winget_upgrade_manager\<close> talks to the console and to the external tool. A run
  is modelled by the list of what it does, in order: a \<open>Print\<close> for each message it
  writes, a \<open>Prompt\<close> for each call of \<^verbatim>\<open>input\<close> (with the number shown in the prompt)
  and a \<open>Run\<close> for each call of \<^verbatim>\<open>subprocess.run\<close>, with its argument vector. The
  messages are named by what they say, not spelled out.
\<close>

datatype message =
    NotWindows
  | CheckingForUpdates
  | NoUpgradesAvailable
  | CheckWarning string
  | Menu "candidate list"
  | Canceled
  | StartingAll
  | FinishedAll
  | StartingOne candidate
  | FinishedOne candidate
  | AllUpgraded
  | InvalidOption nat
  | InvalidInput nat
  | WingetNotFound
  | UnexpectedError

datatype event = Print message | Prompt nat | Run "string list"

text \<open>
  What \<^verbatim>\<open>subprocess.run(..., check=False)\<close> can do: return a completed process, whose
  exit status the program never reads, or raise. \<^verbatim>\<open>FileNotFoundError\<close> and
  \<^verbatim>\<open>ValueError\<close> have handlers of their own in the program; \<open>OtherException\<close> stands
  for every other subclass of \<^verbatim>\<open>Exception\<close>.
\<close>

record completed_process =
  returncode :: int
  stdout :: string
  stderr :: string

datatype exn = FileNotFoundError | ValueError | OtherException

datatype run_result = Completed completed_process | Raises exn

text \<open>The three argument vectors (lines 63, 109 and 126).\<close>

definition list_upgrades_argv :: "string list" where
  "list_upgrades_argv = [''winget'', ''upgrade'']"

definition upgrade_all_argv :: "string list" where
  "upgrade_all_argv =
     [''winget'', ''upgrade'', ''--all'',
      ''--accept-package-agreements'', ''--accept-source-agreements'']"

definition upgrade_one_argv :: "string \<Rightarrow> string list" where
  "upgrade_one_argv package_id =
     [''winget'', ''upgrade'', ''--id'', package_id,
      ''--accept-package-agreements'', ''--accept-source-agreements'']"

text \<open>\<^verbatim>\<open>xs.pop(i)\<close> for an index \<open>i\<close> in range, as the list that remains.\<close>

definition pop :: "'a list \<Rightarrow> nat \<Rightarrow> 'a list" where
  "pop xs i = take i xs @ drop (Suc i) xs"

text \<open>
  The loop of lines 84 to 144, with the handlers of lines 143 to 150 that end or resume
  it. The arguments are the digit limit of \<open>py_int\<close>; the external tool, which answers
  the \<open>k\<close>-th call of \<^verbatim>\<open>subprocess.run\<close> of the whole run, given its argument vector; the
  number \<open>k\<close> of calls made so far; the list \<^verbatim>\<open>packages_to_upgrade\<close>; and the lines still
  to be read from the console. Reading past the last line raises \<^verbatim>\<open>EOFError\<close>, which the
  handler of line 149 reports. An exception that ends the loop is shown by the message
  of its handler.
\<close>

fun selection_loop ::
  "nat \<Rightarrow> (nat \<Rightarrow> string list \<Rightarrow> run_result) \<Rightarrow> nat \<Rightarrow> candidate list \<Rightarrow> string list
   \<Rightarrow> event list" where
  "selection_loop max_str_digits tool k packages [] =
     [Print (Menu packages), Prompt (length packages), Print UnexpectedError]"
| "selection_loop max_str_digits tool k packages (raw # stdin) =
     Print (Menu packages) # Prompt (length packages) #
     (let user_input = strip raw in
      if lower user_input = ''c'' then [Print Canceled]
      else if user_input = ''0'' then
        Print StartingAll # Run upgrade_all_argv #
        (case tool k upgrade_all_argv of
           Completed _ \<Rightarrow> [Print FinishedAll]
         | Raises FileNotFoundError \<Rightarrow> [Print WingetNotFound]
         | Raises _ \<Rightarrow> [Print UnexpectedError])
      else
        (case py_int max_str_digits user_input of
           None \<Rightarrow>
             Print (InvalidInput (length packages)) #
             selection_loop max_str_digits tool k packages stdin
         | Some selection_index \<Rightarrow>
             if 1 \<le> selection_index \<and> selection_index \<le> int (length packages) then
               (let selected_pkg = packages ! nat (selection_index - 1);
                    argv = upgrade_one_argv (pkg_id selected_pkg)
                in Print (StartingOne selected_pkg) # Run argv #
                   (case tool k argv of
                      Completed _ \<Rightarrow>
                        Print (FinishedOne selected_pkg) #
                        (let remaining = pop packages (nat (selection_index - 1)) in
                         if remaining = [] then [Print AllUpgraded]
                         else selection_loop max_str_digits tool (Suc k) remaining stdin)
                    | Raises ValueError \<Rightarrow>
                        Print (InvalidInput (length packages)) #
                        selection_loop max_str_digits tool (Suc k) packages stdin
                    | Raises FileNotFoundError \<Rightarrow> [Print WingetNotFound]
                    | Raises OtherException \<Rightarrow> [Print UnexpectedError]))
             else
               Print (InvalidOption (length packages)) #
               selection_loop max_str_digits tool k packages stdin))"

text \<open>
  The whole function: the platform check, the listing run (call number 0 of the tool),
  the parse of its standard output, and the loop.
\<close>

definition run_winget_upgrade_manager ::
  "string \<Rightarrow> nat \<Rightarrow> (nat \<Rightarrow> string list \<Rightarrow> run_result) \<Rightarrow> string list \<Rightarrow> event list" where
  "run_winget_upgrade_manager platform_system max_str_digits tool stdin =
     (if platform_system \<noteq> ''Windows'' then [Print NotWindows]
      else
        Print CheckingForUpdates # Run list_upgrades_argv #
        (case tool 0 list_upgrades_argv of
           Raises FileNotFoundError \<Rightarrow> [Print WingetNotFound]
         | Raises _ \<Rightarrow> [Print UnexpectedError]
         | Completed result \<Rightarrow>
             (let packages_to_upgrade = parse_winget_output (stdout result) in
              if packages_to_upgrade = [] then [Print NoUpgradesAvailable]
              else
                (if stderr result \<noteq> [] \<and>
                    \<not> contains (stderr result) ''No package found matching input''
                 then [Print (CheckWarning (strip (stderr result)))] else []) @
                selection_loop max_str_digits tool 1 packages_to_upgrade stdin)))"

text \<open>The external invocations of a run: the argument vectors of its \<open>Run\<close> events.\<close>

definition invocations :: "event list \<Rightarrow> string list list" where
  "invocations evs = concat (map (\<lambda>e. case e of Run argv \<Rightarrow> [argv] | _ \<Rightarrow> []) evs)"

section \<open>Example data\<close>

text \<open>
  A list of three candidates and an external tool whose every call returns with exit
  status 1, for the concrete runs below.
\<close>

definition example_packages :: "candidate list" where
  "example_packages =
     [\<lparr>name = ''Alpha One'', pkg_id = ''Alpha.One'', version = ''1.0'', available = ''1.1''\<rparr>,
      \<lparr>name = ''Beta'', pkg_id = ''Beta.Two'', version = ''2.0'', available = ''2.5''\<rparr>,
      \<lparr>name = ''Gamma'', pkg_id = ''Gamma.Three'', version = ''3.0'', available = ''4.0''\<rparr>]"

definition failing_tool :: "nat \<Rightarrow> string list \<Rightarrow> run_result" where
  "failing_tool k argv = Completed \<lparr>returncode = 1, stdout = [], stderr = ''failed''\<rparr>"


text \<open>
  Lines of a report, the candidates of its two rows, and \<^verbatim>\<open>'\n'.join(lines)\<close> to build
  a report from its lines.
\<close>

definition header_line :: string where
  "header_line = ''Name     Id         Version  Available  Source''"

definition row_foo :: string where
  "row_foo = ''Foo Bar  FooBar.Id  1.0      2.0        winget''"


definition candidate_foo :: candidate where
  "candidate_foo =
     \<lparr>name = ''Foo Bar'', pkg_id = ''FooBar.Id'', version = ''1.0'', available = ''2.0''\<rparr>"


fun join_nl :: "string list \<Rightarrow> string" where
  "join_nl [] = []"
| "join_nl [l] = l"
| "join_nl (l # m # ls) = l @ CHR 0x0A # join_nl (m # ls)"


section \<open>Lemmas about the parser\<close>

lemma collect_rows_acc: "collect_rows rows acc = acc @ collect_rows rows []"
proof (induction rows arbitrary: acc)
  case Nil
  show ?case by simp
next
  case (Cons raw rest)
  show ?case
    using Cons.IH [of acc] Cons.IH [of "acc @ [x]" for x] Cons.IH [of "[x]" for x]
    by (simp add: Let_def)
qed

lemma collect_rows_append:
  "collect_rows (xs @ ys) acc = collect_rows ys (collect_rows xs acc)"
  by (induction xs arbitrary: acc) (simp_all add: Let_def)

lemma collect_rows_append_nil:
  "collect_rows (xs @ ys) [] = collect_rows xs [] @ collect_rows ys []"
  using collect_rows_append [of xs ys "[]"] collect_rows_acc [of ys "collect_rows xs []"]
  by simp

lemma collect_rows_Cons_nil:
  "collect_rows (x # ys) [] = collect_rows [x] [] @ collect_rows ys []"
  using collect_rows_append_nil [of "[x]" ys] by simp

lemma find_data_start_none:
  "\<forall>l\<in>set ls. \<not> is_separator l \<Longrightarrow> find_data_start i ls = - 1"
  by (induction ls arbitrary: i) simp_all

lemma find_data_start_first:
  "\<forall>l\<in>set pre. \<not> is_separator l \<Longrightarrow> is_separator s \<Longrightarrow>
   find_data_start i (pre @ s # post) = int (i + length pre) + 1"
  by (induction pre arbitrary: i) simp_all

lemma find_data_start_cases:
  "(find_data_start i ls = - 1 \<and> (\<forall>l\<in>set ls. \<not> is_separator l)) \<or>
   (\<exists>pre s post. ls = pre @ s # post \<and> (\<forall>l\<in>set pre. \<not> is_separator l) \<and> is_separator s)"
proof (induction ls arbitrary: i)
  case Nil
  show ?case by simp
next
  case (Cons a ls)
  show ?case
  proof (cases "is_separator a")
    case True
    then have "a # ls = [] @ a # ls \<and> (\<forall>l\<in>set []. \<not> is_separator l) \<and> is_separator a" by simp
    then show ?thesis by blast
  next
    case False
    from Cons.IH [of "Suc i"] show ?thesis
    proof
      assume "find_data_start (Suc i) ls = - 1 \<and> (\<forall>l\<in>set ls. \<not> is_separator l)"
      with False show ?thesis by simp
    next
      assume "\<exists>pre s post. ls = pre @ s # post \<and> (\<forall>l\<in>set pre. \<not> is_separator l) \<and> is_separator s"
      then obtain pre s post where "ls = pre @ s # post" "\<forall>l\<in>set pre. \<not> is_separator l" "is_separator s"
        by blast
      with False have "a # ls = (a # pre) @ s # post \<and> (\<forall>l\<in>set (a # pre). \<not> is_separator l) \<and> is_separator s"
        by simp
      then show ?thesis by blast
    qed
  qed
qed

lemma parse_lines_none: "\<forall>l\<in>set ls. \<not> is_separator l \<Longrightarrow> parse_lines ls = []"
  by (simp add: parse_lines_def find_data_start_none)

lemma parse_lines_first:
  "\<forall>l\<in>set pre. \<not> is_separator l \<Longrightarrow> is_separator s \<Longrightarrow>
   parse_lines (pre @ s # post) = collect_rows post []"
proof -
  assume a: "\<forall>l\<in>set pre. \<not> is_separator l" "is_separator s"
  have n: "nat (int (0 + length pre) + 1) = Suc (length pre)" by simp
  have "find_data_start 0 (pre @ s # post) = int (0 + length pre) + 1"
    using a by (rule find_data_start_first)
  then show ?thesis
    unfolding parse_lines_def using n by simp
qed

lemma parse_via_lines: "parse_winget_output t = parse_lines (split_nl (strip t))"
  by (simp add: parse_winget_output_def parse_lines_def Let_def)

lemma split_nl_Nil: "split_nl [] = [[]]"
  by (simp add: split_nl.simps)

lemma split_nl_last_piece:
  assumes "dropWhile (\<lambda>c. c \<noteq> CHR 0x0A) s = []"
  shows "split_nl s = [s]"
  by (subst split_nl.simps) (simp only: assms list.case)

lemma split_nl_next_piece:
  assumes "dropWhile (\<lambda>c. c \<noteq> CHR 0x0A) s = x # rest"
  shows "split_nl s = takeWhile (\<lambda>c. c \<noteq> CHR 0x0A) s # split_nl rest"
  by (subst split_nl.simps) (simp only: assms list.case)

lemma split_nl_Cons:
  "split_nl (c # cs) =
     (if c = CHR 0x0A then [] # split_nl cs
      else (c # hd (split_nl cs)) # tl (split_nl cs))"
proof (cases "c = CHR 0x0A")
  case True
  then show ?thesis
    using split_nl_next_piece [of "c # cs" c cs] by simp
next
  case False
  show ?thesis
  proof (cases "dropWhile (\<lambda>c. c \<noteq> CHR 0x0A) cs")
    case Nil
    with False have "dropWhile (\<lambda>c. c \<noteq> CHR 0x0A) (c # cs) = []" by simp
    then have "split_nl (c # cs) = [c # cs]" by (rule split_nl_last_piece)
    moreover from Nil have "split_nl cs = [cs]" by (rule split_nl_last_piece)
    ultimately show ?thesis using False by simp
  next
    case (Cons x rest)
    with False have "dropWhile (\<lambda>c. c \<noteq> CHR 0x0A) (c # cs) = x # rest" by simp
    then have "split_nl (c # cs) = takeWhile (\<lambda>c. c \<noteq> CHR 0x0A) (c # cs) # split_nl rest"
      by (rule split_nl_next_piece)
    moreover from Cons have "split_nl cs = takeWhile (\<lambda>c. c \<noteq> CHR 0x0A) cs # split_nl rest"
      by (rule split_nl_next_piece)
    ultimately show ?thesis using False by simp
  qed
qed

lemma split_nl_not_Nil: "split_nl s \<noteq> []"
  by (cases s) (simp_all add: split_nl_Nil split_nl_Cons)

lemma split_nl_hd_tl: "hd (split_nl s) # tl (split_nl s) = split_nl s"
  using split_nl_not_Nil [of s] by simp

lemma split_nl_snoc_nl: "split_nl (cs @ [CHR 0x0A]) = split_nl cs @ [[]]"
proof (induction cs)
  case Nil
  show ?case by (simp add: split_nl_Cons split_nl_Nil)
next
  case (Cons a cs)
  then show ?case
    using split_nl_not_Nil [of cs] by (simp add: split_nl_Cons)
qed

lemma split_nl_snoc:
  "c \<noteq> CHR 0x0A \<Longrightarrow>
   split_nl (cs @ [c]) = butlast (split_nl cs) @ [last (split_nl cs) @ [c]]"
proof (induction cs)
  case Nil
  then show ?case by (simp add: split_nl_Cons split_nl_Nil)
next
  case (Cons a cs)
  show ?case
  proof (cases "split_nl cs")
    case Nil
    then show ?thesis using split_nl_not_Nil by blast
  next
    case (Cons l ls)
    with Cons.IH [OF Cons.prems] show ?thesis
      by (cases ls) (simp_all add: split_nl_Cons)
  qed
qed

lemma strip_Cons_space: "isspace c \<Longrightarrow> strip (c # s) = strip s"
  by (simp add: strip_def)

lemma strip_snoc_space: "isspace c \<Longrightarrow> strip (s @ [c]) = strip s"
proof (cases "\<forall>x\<in>set s. isspace x")
  case True
  assume "isspace c"
  with True have "\<forall>x\<in>set (s @ [c]). isspace x" by simp
  then have "dropWhile isspace (s @ [c]) = []"
    by (simp only: dropWhile_eq_Nil_conv)
  moreover from True have "dropWhile isspace s = []"
    by (simp only: dropWhile_eq_Nil_conv)
  ultimately show ?thesis by (simp only: strip_def)
next
  case False
  assume c: "isspace c"
  from False obtain x where "x \<in> set s" "\<not> isspace x" by blast
  then have "dropWhile isspace (s @ [c]) = dropWhile isspace s @ [c]"
    by (rule dropWhile_append1)
  with c show ?thesis by (simp add: strip_def)
qed

lemma is_separator_strip: "strip a = strip b \<Longrightarrow> is_separator a = is_separator b"
  by (simp add: is_separator_def)

lemma blank_not_separator: "strip a = [] \<Longrightarrow> \<not> is_separator a"
  by (simp add: is_separator_def startswith_def)

lemma collect_rows_strip:
  "strip a = strip b \<Longrightarrow> collect_rows (a # r) acc = collect_rows (b # r) acc"
  by simp

lemma collect_rows_blank: "strip a = [] \<Longrightarrow> collect_rows (a # r) acc = collect_rows r acc"
  by simp

lemma parse_lines_blank_first:
  assumes "strip a = []"
  shows "parse_lines (a # ls) = parse_lines ls"
proof -
  from assms have na: "\<not> is_separator a" by (rule blank_not_separator)
  from find_data_start_cases [of 0 ls] show ?thesis
  proof
    assume "find_data_start 0 ls = - 1 \<and> (\<forall>l\<in>set ls. \<not> is_separator l)"
    with na have "\<forall>l\<in>set (a # ls). \<not> is_separator l" "\<forall>l\<in>set ls. \<not> is_separator l"
      by simp_all
    then show ?thesis by (simp only: parse_lines_none)
  next
    assume "\<exists>pre s post. ls = pre @ s # post \<and> (\<forall>l\<in>set pre. \<not> is_separator l) \<and> is_separator s"
    then obtain pre s post where ls: "ls = pre @ s # post"
      and pre: "\<forall>l\<in>set pre. \<not> is_separator l" and s: "is_separator s"
      by blast
    from pre na have "\<forall>l\<in>set (a # pre). \<not> is_separator l" by simp
    then have "parse_lines ((a # pre) @ s # post) = collect_rows post []"
      using s by (rule parse_lines_first)
    moreover have "parse_lines (pre @ s # post) = collect_rows post []"
      using pre s by (rule parse_lines_first)
    ultimately show ?thesis using ls by simp
  qed
qed

lemma parse_lines_strip_first:
  assumes "strip a = strip b"
  shows "parse_lines (a # ls) = parse_lines (b # ls)"
proof (cases "is_separator a")
  case True
  with is_separator_strip [OF assms] have "is_separator b" by simp
  have "parse_lines ([] @ a # ls) = collect_rows ls []"
    using True by (intro parse_lines_first) simp_all
  moreover have "parse_lines ([] @ b # ls) = collect_rows ls []"
    using \<open>is_separator b\<close> by (intro parse_lines_first) simp_all
  ultimately show ?thesis by simp
next
  case False
  with is_separator_strip [OF assms] have nb: "\<not> is_separator b" by simp
  from find_data_start_cases [of 0 ls] show ?thesis
  proof
    assume "find_data_start 0 ls = - 1 \<and> (\<forall>l\<in>set ls. \<not> is_separator l)"
    with False nb have "\<forall>l\<in>set (a # ls). \<not> is_separator l" "\<forall>l\<in>set (b # ls). \<not> is_separator l"
      by simp_all
    then show ?thesis by (simp only: parse_lines_none)
  next
    assume "\<exists>pre s post. ls = pre @ s # post \<and> (\<forall>l\<in>set pre. \<not> is_separator l) \<and> is_separator s"
    then obtain pre s post where ls: "ls = pre @ s # post"
      and pre: "\<forall>l\<in>set pre. \<not> is_separator l" and s: "is_separator s"
      by blast
    from pre False have "\<forall>l\<in>set (a # pre). \<not> is_separator l" by simp
    then have "parse_lines ((a # pre) @ s # post) = collect_rows post []"
      using s by (rule parse_lines_first)
    moreover from pre nb have "\<forall>l\<in>set (b # pre). \<not> is_separator l" by simp
    then have "parse_lines ((b # pre) @ s # post) = collect_rows post []"
      using s by (rule parse_lines_first)
    ultimately show ?thesis using ls by simp
  qed
qed

lemma parse_lines_strip_last:
  assumes "strip a = strip b"
  shows "parse_lines (ls @ [a]) = parse_lines (ls @ [b])"
proof -
  from find_data_start_cases [of 0 ls] show ?thesis
  proof
    assume "find_data_start 0 ls = - 1 \<and> (\<forall>l\<in>set ls. \<not> is_separator l)"
    then have none: "\<forall>l\<in>set ls. \<not> is_separator l" by simp
    show ?thesis
    proof (cases "is_separator a")
      case True
      with is_separator_strip [OF assms] have "is_separator b" by simp
      have "parse_lines (ls @ a # []) = collect_rows [] []"
        using none True by (rule parse_lines_first)
      moreover have "parse_lines (ls @ b # []) = collect_rows [] []"
        using none \<open>is_separator b\<close> by (rule parse_lines_first)
      ultimately show ?thesis by simp
    next
      case False
      with is_separator_strip [OF assms] have "\<not> is_separator b" by simp
      with False none have "\<forall>l\<in>set (ls @ [a]). \<not> is_separator l"
        "\<forall>l\<in>set (ls @ [b]). \<not> is_separator l" by simp_all
      then show ?thesis by (simp only: parse_lines_none)
    qed
  next
    assume "\<exists>pre s post. ls = pre @ s # post \<and> (\<forall>l\<in>set pre. \<not> is_separator l) \<and> is_separator s"
    then obtain pre s post where ls: "ls = pre @ s # post"
      and pre: "\<forall>l\<in>set pre. \<not> is_separator l" and s: "is_separator s"
      by blast
    have "parse_lines (pre @ s # (post @ [a])) = collect_rows (post @ [a]) []"
      using pre s by (rule parse_lines_first)
    moreover have "parse_lines (pre @ s # (post @ [b])) = collect_rows (post @ [b]) []"
      using pre s by (rule parse_lines_first)
    moreover have "collect_rows (post @ [a]) [] = collect_rows (post @ [b]) []"
      using collect_rows_strip [OF assms, of "[]" "[]"]
      by (simp only: collect_rows_append_nil)
    ultimately show ?thesis using ls by simp
  qed
qed

lemma parse_lines_blank_last:
  assumes "strip a = []"
  shows "parse_lines (ls @ [a]) = parse_lines ls"
proof -
  from assms have na: "\<not> is_separator a" by (rule blank_not_separator)
  from find_data_start_cases [of 0 ls] show ?thesis
  proof
    assume "find_data_start 0 ls = - 1 \<and> (\<forall>l\<in>set ls. \<not> is_separator l)"
    with na have "\<forall>l\<in>set (ls @ [a]). \<not> is_separator l" "\<forall>l\<in>set ls. \<not> is_separator l"
      by simp_all
    then show ?thesis by (simp only: parse_lines_none)
  next
    assume "\<exists>pre s post. ls = pre @ s # post \<and> (\<forall>l\<in>set pre. \<not> is_separator l) \<and> is_separator s"
    then obtain pre s post where ls: "ls = pre @ s # post"
      and pre: "\<forall>l\<in>set pre. \<not> is_separator l" and s: "is_separator s"
      by blast
    have "parse_lines (pre @ s # (post @ [a])) = collect_rows (post @ [a]) []"
      using pre s by (rule parse_lines_first)
    moreover have "parse_lines (pre @ s # post) = collect_rows post []"
      using pre s by (rule parse_lines_first)
    moreover have "collect_rows (post @ [a]) [] = collect_rows post []"
      using collect_rows_blank [OF assms, of "[]" "[]"]
      by (simp add: collect_rows_append_nil)
    ultimately show ?thesis using ls by simp
  qed
qed

lemma parse_lines_space_first:
  assumes "isspace c"
  shows "parse_lines (split_nl (c # cs)) = parse_lines (split_nl cs)"
proof (cases "c = CHR 0x0A")
  case True
  then have "split_nl (c # cs) = [] # split_nl cs" by (simp add: split_nl_Cons)
  moreover have "strip [] = []" by (simp add: strip_def)
  ultimately show ?thesis by (simp add: parse_lines_blank_first)
next
  case False
  then have "split_nl (c # cs) = (c # hd (split_nl cs)) # tl (split_nl cs)"
    by (simp add: split_nl_Cons)
  moreover have "strip (c # hd (split_nl cs)) = strip (hd (split_nl cs))"
    using assms by (rule strip_Cons_space)
  then have "parse_lines ((c # hd (split_nl cs)) # tl (split_nl cs))
      = parse_lines (hd (split_nl cs) # tl (split_nl cs))"
    by (rule parse_lines_strip_first)
  ultimately show ?thesis by (simp only: split_nl_hd_tl)
qed

lemma parse_lines_space_last:
  assumes "isspace c"
  shows "parse_lines (split_nl (cs @ [c])) = parse_lines (split_nl cs)"
proof (cases "c = CHR 0x0A")
  case True
  then have "split_nl (cs @ [c]) = split_nl cs @ [[]]" by (simp add: split_nl_snoc_nl)
  moreover have "strip [] = []" by (simp add: strip_def)
  ultimately show ?thesis by (simp add: parse_lines_blank_last)
next
  case False
  then have "split_nl (cs @ [c]) = butlast (split_nl cs) @ [last (split_nl cs) @ [c]]"
    by (rule split_nl_snoc)
  moreover have "strip (last (split_nl cs) @ [c]) = strip (last (split_nl cs))"
    using assms by (rule strip_snoc_space)
  then have "parse_lines (butlast (split_nl cs) @ [last (split_nl cs) @ [c]])
      = parse_lines (butlast (split_nl cs) @ [last (split_nl cs)])"
    by (rule parse_lines_strip_last)
  ultimately show ?thesis using split_nl_not_Nil [of cs] by simp
qed

lemma parse_lines_lstrip:
  "parse_lines (split_nl (dropWhile isspace t)) = parse_lines (split_nl t)"
  by (induction t) (simp_all add: parse_lines_space_first)

lemma parse_lines_rstrip:
  "parse_lines (split_nl (rev (dropWhile isspace (rev t)))) = parse_lines (split_nl t)"
  by (induction t rule: rev_induct) (simp_all add: parse_lines_space_last)

lemma parse_lines_of_text: "parse_winget_output t = parse_lines (split_nl t)"
  unfolding parse_via_lines strip_def
  by (simp only: parse_lines_rstrip parse_lines_lstrip)

lemma row_well_formed: "well_formed_row r \<Longrightarrow> collect_rows [r] [] = [candidate_of r]"
  by (simp add: well_formed_row_def candidate_of_def row_fields_def Let_def)


lemma rows_well_formed:
  "\<forall>r\<in>set rows. well_formed_row r \<Longrightarrow> collect_rows rows [] = map candidate_of rows"
proof (induction rows)
  case Nil
  show ?case by simp
next
  case (Cons r rows)
  have "collect_rows (r # rows) [] = collect_rows [r] [] @ collect_rows rows []"
    by (rule collect_rows_Cons_nil)
  with Cons show ?case by (simp only: row_well_formed list.set insert_iff ball_simps list.map) simp
qed

lemma row_emitted:
  "c \<in> set (collect_rows [r] []) \<Longrightarrow> well_formed_row r \<and> c = candidate_of r"
  by (auto simp: well_formed_row_def candidate_of_def row_fields_def Let_def split: if_splits)

lemma rows_emitted:
  "c \<in> set (collect_rows rows []) \<Longrightarrow> \<exists>r\<in>set rows. well_formed_row r \<and> c = candidate_of r"
proof (induction rows)
  case Nil
  then show ?case by simp
next
  case (Cons r rows)
  from Cons.prems have "c \<in> set (collect_rows [r] []) \<or> c \<in> set (collect_rows rows [])"
    using collect_rows_Cons_nil [of r rows] by simp
  then show ?case
  proof
    assume "c \<in> set (collect_rows [r] [])"
    then have "well_formed_row r \<and> c = candidate_of r" by (rule row_emitted)
    then show ?thesis by simp
  next
    assume "c \<in> set (collect_rows rows [])"
    with Cons.IH show ?thesis by auto
  qed
qed



lemma parse_first_separator:
  assumes "split_nl t = pre @ s # post" and "\<forall>l\<in>set pre. \<not> is_separator l" and "is_separator s"
  shows "parse_winget_output t = collect_rows post []"
  using parse_lines_first [OF assms(2,3), of post] assms(1)
  by (simp add: parse_lines_of_text)

lemma parse_no_separator:
  assumes "\<forall>l\<in>set (split_nl t). \<not> is_separator l"
  shows "parse_winget_output t = []"
  using parse_lines_none [OF assms] by (simp add: parse_lines_of_text)

lemma parse_emitted:
  "c \<in> set (parse_winget_output t) \<Longrightarrow>
   \<exists>r\<in>set (split_nl t). well_formed_row r \<and> c = candidate_of r"
proof -
  assume c: "c \<in> set (parse_winget_output t)"
  from find_data_start_cases [of 0 "split_nl t"] show ?thesis
  proof
    assume "find_data_start 0 (split_nl t) = - 1 \<and> (\<forall>l\<in>set (split_nl t). \<not> is_separator l)"
    then have "parse_winget_output t = []" by (simp add: parse_no_separator)
    with c show ?thesis by simp
  next
    assume "\<exists>pre s post. split_nl t = pre @ s # post \<and> (\<forall>l\<in>set pre. \<not> is_separator l) \<and> is_separator s"
    then obtain pre s post where l: "split_nl t = pre @ s # post"
      and p: "\<forall>l\<in>set pre. \<not> is_separator l" and s: "is_separator s"
      by blast
    from l p s have "parse_winget_output t = collect_rows post []"
      by (rule parse_first_separator)
    with c have "\<exists>r\<in>set post. well_formed_row r \<and> c = candidate_of r"
      by (simp add: rows_emitted)
    with l show ?thesis by auto
  qed
qed












section \<open>Lemmas about the console input\<close>

lemma lower_char_C: "lower_char CHR ''C'' = CHR ''c''"
  by (simp add: lower_char_def char_of_eq_iff take_bit_eq_mod)

lemma lower_char_c_fix: "lower_char CHR ''c'' = CHR ''c''"
  by (simp add: lower_char_def)

lemma lower_char_c: "lower_char x = CHR ''c'' \<longleftrightarrow> x = CHR ''c'' \<or> x = CHR ''C''"
proof
  assume a: "lower_char x = CHR ''c''"
  define n where "n = (of_char x :: nat)"
  show "x = CHR ''c'' \<or> x = CHR ''C''"
  proof (cases "(65 \<le> n \<and> n \<le> 90) \<or> (192 \<le> n \<and> n \<le> 222 \<and> n \<noteq> 215)")
    case True
    with a have "char_of (n + 32) = CHR ''c''"
      unfolding lower_char_def n_def Let_def by (simp only: if_True)
    then have "take_bit 8 (n + 32) = (of_char CHR ''c'' :: nat)"
      by (simp only: char_of_eq_iff)
    then have "(n + 32) mod 256 = 99"
      by (simp add: take_bit_eq_mod)
    moreover from True have "n \<le> 222" by auto
    then have "(n + 32) mod 256 = n + 32" by simp
    ultimately have "n = 67" by simp
    then have "(of_char x :: nat) = of_char CHR ''C''" unfolding n_def by simp
    then have "x = CHR ''C''" by (simp only: of_char_eq_iff)
    then show ?thesis by (rule disjI2)
  next
    case False
    with a have "x = CHR ''c''"
      unfolding lower_char_def n_def Let_def by (simp only: if_False)
    then show ?thesis by (rule disjI1)
  qed
next
  assume "x = CHR ''c'' \<or> x = CHR ''C''"
  then show "lower_char x = CHR ''c''"
    using lower_char_C lower_char_c_fix by blast
qed

lemma lower_c: "lower s = ''c'' \<longleftrightarrow> s = ''c'' \<or> s = ''C''"
proof -
  have "lower s = ''c'' \<longleftrightarrow> (\<exists>x. s = [x] \<and> lower_char x = CHR ''c'')"
    by (cases s) (auto simp: lower_def)
  then show ?thesis by (auto simp: lower_char_c)
qed

section \<open>Lemmas about the selection loop\<close>

lemma py_int_c: "lower s = ''c'' \<Longrightarrow> py_int lim s = None"
  by (auto simp: lower_c py_int_def isdigit_def)

lemma py_int_zero: "py_int lim ''0'' = Some 0"
  by (auto simp: py_int_def isdigit_def digit_value_def)

lemma loop_step_select:
  assumes "py_int lim (strip raw) = Some n" and "1 \<le> n" and "n \<le> int (length packages)"
  shows "selection_loop lim tool k packages (raw # stdin) =
     Print (Menu packages) # Prompt (length packages) #
     Print (StartingOne (packages ! nat (n - 1))) #
     Run (upgrade_one_argv (pkg_id (packages ! nat (n - 1)))) #
     (case tool k (upgrade_one_argv (pkg_id (packages ! nat (n - 1)))) of
        Completed _ \<Rightarrow>
          Print (FinishedOne (packages ! nat (n - 1))) #
          (if pop packages (nat (n - 1)) = [] then [Print AllUpgraded]
           else selection_loop lim tool (Suc k) (pop packages (nat (n - 1))) stdin)
      | Raises ValueError \<Rightarrow>
          Print (InvalidInput (length packages)) # selection_loop lim tool (Suc k) packages stdin
      | Raises FileNotFoundError \<Rightarrow> [Print WingetNotFound]
      | Raises OtherException \<Rightarrow> [Print UnexpectedError])"
proof -
  from assms have "lower (strip raw) \<noteq> ''c''"
    using py_int_c [of "strip raw" lim] by auto
  moreover from assms have "strip raw \<noteq> ''0''"
    using py_int_zero [of lim] by auto
  ultimately show ?thesis
    using assms by (simp add: Let_def split: run_result.splits exn.splits)
qed

lemma loop_step_invalid:
  assumes "lower (strip raw) \<noteq> ''c''" and "strip raw \<noteq> ''0''"
    and "\<forall>n. py_int lim (strip raw) = Some n \<longrightarrow> \<not> (1 \<le> n \<and> n \<le> int (length packages))"
  shows "selection_loop lim tool k packages (raw # stdin) =
     Print (Menu packages) # Prompt (length packages) #
     Print (if py_int lim (strip raw) = None then InvalidInput (length packages)
            else InvalidOption (length packages)) #
     selection_loop lim tool k packages stdin"
  using assms by (auto simp: Let_def split: option.splits)

lemma loop_step_all:
  assumes "strip raw = ''0''"
  shows "selection_loop lim tool k packages (raw # stdin) =
     Print (Menu packages) # Prompt (length packages) # Print StartingAll # Run upgrade_all_argv #
     (case tool k upgrade_all_argv of
        Completed _ \<Rightarrow> [Print FinishedAll]
      | Raises FileNotFoundError \<Rightarrow> [Print WingetNotFound]
      | Raises _ \<Rightarrow> [Print UnexpectedError])"
  using assms by (simp add: lower_def lower_char_def)

lemma loop_step_cancel:
  assumes "lower (strip raw) = ''c''"
  shows "selection_loop lim tool k packages (raw # stdin) =
     [Print (Menu packages), Prompt (length packages), Print Canceled]"
  using assms by simp

lemma selection_loop_starts:
  "\<exists>rest. selection_loop lim tool k packages stdin =
      Print (Menu packages) # Prompt (length packages) # rest"
  by (cases stdin) simp_all

lemma pop_nth:
  "i < length xs \<Longrightarrow> j < length (pop xs i) \<Longrightarrow>
   pop xs i ! j = (if j < i then xs ! j else xs ! Suc j)"
  by (auto simp: pop_def nth_append min_def)

lemma length_pop: "i < length xs \<Longrightarrow> length (pop xs i) = length xs - 1"
  by (auto simp: pop_def)


section \<open>The parser on a literal report\<close>

text \<open>
  C8. The report made of the separator line \<^verbatim>\<open>-----\<close> and the row
  \<^verbatim>\<open>Foo Bar  FooBar.Id  1.0  2.0  winget\<close> parses to exactly one candidate, with name
  \<^verbatim>\<open>Foo Bar\<close>, id \<^verbatim>\<open>FooBar.Id\<close>, current version \<^verbatim>\<open>1.0\<close> and available version \<^verbatim>\<open>2.0\<close>.
\<close>

theorem parse_literal_report:
  "parse_winget_output (''-----'' @ [CHR 0x0A] @ ''Foo Bar  FooBar.Id  1.0  2.0  winget'')
   = [\<lparr>name = ''Foo Bar'', pkg_id = ''FooBar.Id'', version = ''1.0'', available = ''2.0''\<rparr>]"
  by code_simp

section \<open>The header boundary and the data rows\<close>

text \<open>
  C1, as the code has it. The boundary between header and data is the first line whose
  trimmed content begins with \<^verbatim>\<open>---\<close> or with \<^verbatim>\<open>====\<close>, that is with three or more
  \<^verbatim>\<open>-\<close> or with four or more \<^verbatim>\<open>=\<close>. A text none of whose lines is such a line parses to the
  empty list, and the data rows are exactly the lines after the first such line. The
  lines are those of the text itself: trimming the whole text first, as line 12 does,
  changes nothing in the result.
\<close>

theorem first_separator_is_boundary:
  "((\<forall>l\<in>set (split_nl t). \<not> is_separator l) \<longrightarrow> parse_winget_output t = [])
   \<and> (split_nl t = pre @ s # post \<and> (\<forall>l\<in>set pre. \<not> is_separator l) \<and> is_separator s
        \<longrightarrow> parse_winget_output t = collect_rows post [])
   \<and> (is_separator l \<longleftrightarrow>
        (\<exists>rest. strip l = ''---'' @ rest) \<or> (\<exists>rest. strip l = ''===='' @ rest))"
proof (intro conjI impI)
  assume "\<forall>l\<in>set (split_nl t). \<not> is_separator l"
  then show "parse_winget_output t = []" by (rule parse_no_separator)
next
  assume "split_nl t = pre @ s # post \<and> (\<forall>l\<in>set pre. \<not> is_separator l) \<and> is_separator s"
  then show "parse_winget_output t = collect_rows post []"
    using parse_first_separator by blast
next
  have "\<And>p x. (take (length p) x = p) = (\<exists>rest. x = p @ rest)" for p x :: string
    by (metis append_eq_conv_conj)
  then show "is_separator l \<longleftrightarrow>
      (\<exists>rest. strip l = ''---'' @ rest) \<or> (\<exists>rest. strip l = ''===='' @ rest)"
    unfolding is_separator_def startswith_def by blast
qed

theorem first_separator_is_boundary_witness:
  "split_nl ''No installed package found.'' = [''No installed package found.'']
   \<and> \<not> is_separator ''No installed package found.''
   \<and> parse_winget_output ''No installed package found.'' = []
   \<and> split_nl (join_nl [header_line, ''-----'', row_foo]) = [header_line] @ ''-----'' # [row_foo]
   \<and> \<not> is_separator header_line \<and> is_separator ''-----''
   \<and> parse_winget_output (join_nl [header_line, ''-----'', row_foo]) = [candidate_foo]"
proof -
  have a1: "split_nl ''No installed package found.'' = [''No installed package found.'']"
    by code_simp
  have a2: "\<not> is_separator ''No installed package found.''" by code_simp
  from a1 a2 have a3: "\<forall>l\<in>set (split_nl ''No installed package found.''). \<not> is_separator l"
    by simp
  have b1: "split_nl (join_nl [header_line, ''-----'', row_foo])
      = [header_line] @ ''-----'' # [row_foo]"
    by code_simp
  have b2: "\<not> is_separator header_line" by code_simp
  then have b3: "\<forall>l\<in>set [header_line]. \<not> is_separator l" by simp
  have b4: "is_separator ''-----''" by code_simp
  have b5: "collect_rows [row_foo] [] = [candidate_foo]" by code_simp
  note w1 = first_separator_is_boundary [of "''No installed package found.''"]
  note w2 = first_separator_is_boundary [of "join_nl [header_line, ''-----'', row_foo]"
      "[header_line]" "''-----''" "[row_foo]"]
  from w1 a3 have "parse_winget_output ''No installed package found.'' = []" by blast
  moreover from w2 b1 b3 b4
  have "parse_winget_output (join_nl [header_line, ''-----'', row_foo]) = collect_rows [row_foo] []"
    by blast
  ultimately show ?thesis using a1 a2 b1 b2 b4 b5 by simp
qed

text \<open>
  The claim as worded counts a line of three \<^verbatim>\<open>=\<close> as the boundary. The code does not:
  for the report made of the line \<^verbatim>\<open>===\<close> and one good row, the first line begins with a
  run of three \<^verbatim>\<open>=\<close>, the row by itself gives a candidate, and the parser returns
  nothing.
\<close>

theorem three_equals_not_a_boundary:
  "spec_is_separator ''===''
   \<and> split_nl (join_nl [''==='', row_foo]) = [''==='', row_foo]
   \<and> collect_rows [row_foo] [] = [candidate_foo]
   \<and> parse_winget_output (join_nl [''==='', row_foo]) = []"
  by code_simp




text \<open>
  C7. Every candidate the parser returns has a name and an id that are not empty, and is
  the candidate of a well-formed row of the text; a row whose trimmed first or second
  field is empty adds nothing to the list.
\<close>

theorem candidates_have_name_and_id:
  "(\<forall>c\<in>set (parse_winget_output t).
      name c \<noteq> [] \<and> pkg_id c \<noteq> []
      \<and> (\<exists>r\<in>set (split_nl t). well_formed_row r \<and> c = candidate_of r))
   \<and> (strip (row_fields r ! 0) = [] \<or> strip (row_fields r ! 1) = [] \<longrightarrow> collect_rows [r] acc = acc)"
proof (intro conjI ballI impI)
  fix c assume "c \<in> set (parse_winget_output t)"
  then have e: "\<exists>r\<in>set (split_nl t). well_formed_row r \<and> c = candidate_of r"
    by (rule parse_emitted)
  then show "\<exists>r\<in>set (split_nl t). well_formed_row r \<and> c = candidate_of r" .
  from e show "name c \<noteq> []" by (auto simp: well_formed_row_def candidate_of_def)
  from e show "pkg_id c \<noteq> []" by (auto simp: well_formed_row_def candidate_of_def)
next
  assume "strip (row_fields r ! 0) = [] \<or> strip (row_fields r ! 1) = []"
  then show "collect_rows [r] acc = acc"
    by (auto simp: row_fields_def Let_def)
qed

theorem candidates_have_name_and_id_witness:
  "parse_winget_output (join_nl [''-----'', row_foo]) = [candidate_foo]
   \<and> name candidate_foo \<noteq> [] \<and> pkg_id candidate_foo \<noteq> []
   \<and> strip (row_fields [] ! 0) = [] \<and> collect_rows [[]] [candidate_foo] = [candidate_foo]"
proof -
  have p: "parse_winget_output (join_nl [''-----'', row_foo]) = [candidate_foo]" by code_simp
  have b: "strip (row_fields [] ! 0) = []" by code_simp
  note w = candidates_have_name_and_id [of "join_nl [''-----'', row_foo]" "[]" "[candidate_foo]"]
  from w p have "name candidate_foo \<noteq> [] \<and> pkg_id candidate_foo \<noteq> []" by simp
  moreover from w b have "collect_rows [[]] [candidate_foo] = [candidate_foo]" by blast
  ultimately show ?thesis using p b by blast
qed

text \<open>
  C9. Parsing the same text twice gives equal lists. The parser reads nothing but its
  argument and its list \<^verbatim>\<open>packages\<close> is made anew by every call (line 11), so it is a
  function of the text.
\<close>

theorem parse_twice_equal:
  "let first = parse_winget_output t; second = parse_winget_output t in first = second"
  by simp




section \<open>One pass of the selection loop\<close>

text \<open>
  C3. When the console line, trimmed, parses as an integer \<open>n\<close> with
  \<open>1 \<le> n \<le> length packages\<close> and the call of the external tool returns (with whatever
  exit status, output and error text), this pass of the loop makes exactly one external
  invocation: the argument vector of line 126, whose fourth entry is the id of the
  \<open>n\<close>-th candidate (counted from 1). The entry is then removed and the other entries
  keep their order. If none is left the run ends with the closing message; otherwise the
  loop goes on with the shorter list, which it lists first.
\<close>

theorem upgrade_one_selected:
  assumes "py_int lim (strip raw) = Some n" and "1 \<le> n" and "n \<le> int (length packages)"
    and "tool k [''winget'', ''upgrade'', ''--id'', pkg_id (packages ! nat (n - 1)),
                 ''--accept-package-agreements'', ''--accept-source-agreements'']
         = Completed result"
  shows
    "let selected = packages ! nat (n - 1);
         remaining = take (nat (n - 1)) packages @ drop (nat n) packages;
         argv = [''winget'', ''upgrade'', ''--id'', pkg_id selected,
                 ''--accept-package-agreements'', ''--accept-source-agreements''];
         step = [Print (Menu packages), Prompt (length packages),
                 Print (StartingOne selected), Run argv, Print (FinishedOne selected)]
     in selection_loop lim tool k packages (raw # stdin) =
          step @ (if remaining = [] then [Print AllUpgraded]
                  else selection_loop lim tool (Suc k) remaining stdin)
        \<and> invocations step = [argv]
        \<and> length remaining = length packages - 1
        \<and> (\<forall>i < length remaining.
              remaining ! i = (if i < nat (n - 1) then packages ! i else packages ! Suc i))
        \<and> (\<exists>rest. selection_loop lim tool (Suc k) remaining stdin =
              Print (Menu remaining) # Prompt (length remaining) # rest)"
proof -
  have i: "nat (n - 1) < length packages" and s: "Suc (nat (n - 1)) = nat n"
    using assms(2,3) by auto
  have p: "pop packages (nat (n - 1)) = take (nat (n - 1)) packages @ drop (nat n) packages"
    by (simp add: pop_def s)
  have t: "tool k (upgrade_one_argv (pkg_id (packages ! nat (n - 1)))) = Completed result"
    using assms(4) by (simp only: upgrade_one_argv_def)
  have "selection_loop lim tool k packages (raw # stdin) =
      [Print (Menu packages), Prompt (length packages),
       Print (StartingOne (packages ! nat (n - 1))),
       Run (upgrade_one_argv (pkg_id (packages ! nat (n - 1)))),
       Print (FinishedOne (packages ! nat (n - 1)))] @
      (if pop packages (nat (n - 1)) = [] then [Print AllUpgraded]
       else selection_loop lim tool (Suc k) (pop packages (nat (n - 1))) stdin)"
    by (simp only: loop_step_select [OF assms(1-3)] t) simp
  moreover have "invocations [Print (Menu packages), Prompt (length packages),
       Print (StartingOne (packages ! nat (n - 1))),
       Run (upgrade_one_argv (pkg_id (packages ! nat (n - 1)))),
       Print (FinishedOne (packages ! nat (n - 1)))]
     = [upgrade_one_argv (pkg_id (packages ! nat (n - 1)))]"
    by (simp add: invocations_def)
  moreover have "length (pop packages (nat (n - 1))) = length packages - 1"
    using i by (rule length_pop)
  moreover have "\<forall>j < length (pop packages (nat (n - 1))).
      pop packages (nat (n - 1)) ! j = (if j < nat (n - 1) then packages ! j else packages ! Suc j)"
    using pop_nth [OF i] by blast
  moreover have "\<exists>rest. selection_loop lim tool (Suc k) (pop packages (nat (n - 1))) stdin =
      Print (Menu (pop packages (nat (n - 1)))) # Prompt (length (pop packages (nat (n - 1)))) # rest"
    by (rule selection_loop_starts)
  ultimately show ?thesis
    unfolding Let_def p upgrade_one_argv_def by blast
qed

theorem upgrade_one_selected_witness:
  "py_int 4300 (strip '' 2 '') = Some 2 \<and> (1::int) \<le> 2 \<and> (2::int) \<le> int (length example_packages)
   \<and> selection_loop 4300 failing_tool 1 example_packages ['' 2 '', ''c''] =
       [Print (Menu example_packages), Prompt 3,
        Print (StartingOne (example_packages ! 1)),
        Run [''winget'', ''upgrade'', ''--id'', ''Beta.Two'',
             ''--accept-package-agreements'', ''--accept-source-agreements''],
        Print (FinishedOne (example_packages ! 1)),
        Print (Menu [example_packages ! 0, example_packages ! 2]), Prompt 2, Print Canceled]"
proof -
  have h1: "py_int 4300 (strip '' 2 '') = Some 2"
    by (simp add: py_int_def strip_def isspace_def isdigit_def digit_value_def)
  have h2: "(1::int) \<le> 2" by simp
  have h3: "(2::int) \<le> int (length example_packages)" by (simp add: example_packages_def)
  have h4: "failing_tool 1 [''winget'', ''upgrade'', ''--id'',
        pkg_id (example_packages ! nat (2 - 1)),
        ''--accept-package-agreements'', ''--accept-source-agreements'']
      = Completed \<lparr>returncode = 1, stdout = [], stderr = ''failed''\<rparr>"
    by (simp add: failing_tool_def)
  have c: "\<And>k pk. selection_loop 4300 failing_tool k pk [''c'']
      = [Print (Menu pk), Prompt (length pk), Print Canceled]"
    by (simp add: strip_def isspace_def lower_def lower_char_def)
  from upgrade_one_selected [of 4300 "'' 2 ''" 2 example_packages failing_tool 1
      "\<lparr>returncode = 1, stdout = [], stderr = ''failed''\<rparr>" "[''c'']", OF h1 h2 h3 h4]
  have "selection_loop 4300 failing_tool 1 example_packages ['' 2 '', ''c''] =
       [Print (Menu example_packages), Prompt 3,
        Print (StartingOne (example_packages ! 1)),
        Run [''winget'', ''upgrade'', ''--id'', ''Beta.Two'',
             ''--accept-package-agreements'', ''--accept-source-agreements''],
        Print (FinishedOne (example_packages ! 1)),
        Print (Menu [example_packages ! 0, example_packages ! 2]), Prompt 2, Print Canceled]"
    by (simp add: Let_def c example_packages_def del: selection_loop.simps)
  with h1 h2 h3 show ?thesis by blast
qed

text \<open>
  C4. When the trimmed console line is neither \<^verbatim>\<open>c\<close> nor \<^verbatim>\<open>C\<close> nor \<^verbatim>\<open>0\<close> and is not an
  integer between 1 and the length of the list, this pass of the loop makes no external
  invocation, prints a diagnostic (one for a text that is no integer, another for an
  integer out of range) and goes on with the same list and the same count of calls: it
  lists the candidates and prompts again.
\<close>

theorem invalid_input_reprompts:
  assumes "strip raw \<noteq> ''c''" and "strip raw \<noteq> ''C''" and "strip raw \<noteq> ''0''"
    and "\<forall>n. py_int lim (strip raw) = Some n \<longrightarrow> n < 1 \<or> int (length packages) < n"
  shows
    "let step = [Print (Menu packages), Prompt (length packages),
                 Print (if py_int lim (strip raw) = None then InvalidInput (length packages)
                        else InvalidOption (length packages))]
     in selection_loop lim tool k packages (raw # stdin) =
          step @ selection_loop lim tool k packages stdin
        \<and> invocations step = []
        \<and> (\<exists>rest. selection_loop lim tool k packages stdin =
              Print (Menu packages) # Prompt (length packages) # rest)"
proof -
  from assms(1,2) have 1: "lower (strip raw) \<noteq> ''c''" by (simp add: lower_c)
  from assms(4) have 2: "\<forall>n. py_int lim (strip raw) = Some n \<longrightarrow>
      \<not> (1 \<le> n \<and> n \<le> int (length packages))"
    by auto
  have 3: "\<exists>rest. selection_loop lim tool k packages stdin =
      Print (Menu packages) # Prompt (length packages) # rest"
    by (rule selection_loop_starts)
  show ?thesis
    unfolding Let_def
    by (simp only: loop_step_invalid [OF 1 assms(3) 2]) (simp add: invocations_def 3)
qed

theorem invalid_input_reprompts_witness:
  "strip ''5'' \<noteq> ''c'' \<and> strip ''5'' \<noteq> ''C'' \<and> strip ''5'' \<noteq> ''0''
   \<and> py_int 4300 (strip ''5'') = Some 5 \<and> int (length example_packages) < 5
   \<and> selection_loop 4300 failing_tool 1 example_packages [''5'', ''c''] =
       [Print (Menu example_packages), Prompt 3, Print (InvalidOption 3),
        Print (Menu example_packages), Prompt 3, Print Canceled]"
proof -
  have s: "strip ''5'' = ''5''" by (simp add: strip_def isspace_def)
  have h1: "strip ''5'' \<noteq> ''c''" and h2: "strip ''5'' \<noteq> ''C''" and h3: "strip ''5'' \<noteq> ''0''"
    unfolding s by simp_all
  have p: "py_int 4300 (strip ''5'') = Some 5"
    unfolding s by (simp add: py_int_def isdigit_def digit_value_def)
  have l: "int (length example_packages) < 5" by (simp add: example_packages_def)
  from p l have h4: "\<forall>n. py_int 4300 (strip ''5'') = Some n \<longrightarrow>
      n < 1 \<or> int (length example_packages) < n"
    by simp
  have c: "\<And>k pk. selection_loop 4300 failing_tool k pk [''c'']
      = [Print (Menu pk), Prompt (length pk), Print Canceled]"
    by (simp add: strip_def isspace_def lower_def lower_char_def)
  from invalid_input_reprompts [of "''5''" 4300 example_packages failing_tool 1 "[''c'']",
      OF h1 h2 h3 h4]
  have "selection_loop 4300 failing_tool 1 example_packages [''5'', ''c''] =
       [Print (Menu example_packages), Prompt 3, Print (InvalidOption 3),
        Print (Menu example_packages), Prompt 3, Print Canceled]"
    using p by (simp add: Let_def c example_packages_def del: selection_loop.simps)
  with h1 h2 h3 p l show ?thesis by blast
qed


text \<open>
  C5. When the trimmed console line is \<^verbatim>\<open>0\<close>, the loop makes exactly one external
  invocation, the argument vector of line 109 that upgrades everything, and no
  invocation for a single id; the run ends there. Whatever the call reports when it
  returns, the run closes with the finishing message; no later console line is read, and
  nothing after the menu depends on the list.
\<close>

theorem upgrade_all_ends_loop:
  assumes "strip raw = ''0''"
  shows
    "(\<forall>result. tool k [''winget'', ''upgrade'', ''--all'',
                        ''--accept-package-agreements'', ''--accept-source-agreements'']
          = Completed result \<longrightarrow>
        selection_loop lim tool k packages (raw # stdin) =
          [Print (Menu packages), Prompt (length packages), Print StartingAll,
           Run [''winget'', ''upgrade'', ''--all'',
                ''--accept-package-agreements'', ''--accept-source-agreements''],
           Print FinishedAll])
     \<and> invocations (selection_loop lim tool k packages (raw # stdin)) =
         [[''winget'', ''upgrade'', ''--all'',
           ''--accept-package-agreements'', ''--accept-source-agreements'']]
     \<and> (\<forall>i. [''winget'', ''upgrade'', ''--id'', i,
              ''--accept-package-agreements'', ''--accept-source-agreements'']
            \<notin> set (invocations (selection_loop lim tool k packages (raw # stdin))))
     \<and> selection_loop lim tool k packages (raw # stdin) =
         selection_loop lim tool k packages [raw]
     \<and> drop 2 (selection_loop lim tool k packages (raw # stdin)) =
         drop 2 (selection_loop lim tool k others (raw # stdin))"
  unfolding loop_step_all [OF assms]
  by (simp add: invocations_def upgrade_all_argv_def split: run_result.splits exn.splits)

theorem upgrade_all_ends_loop_witness:
  "strip ''0'' = ''0''
   \<and> selection_loop 4300 failing_tool 1 example_packages [''0'', ''1'', ''2''] =
       [Print (Menu example_packages), Prompt (length example_packages), Print StartingAll,
        Run [''winget'', ''upgrade'', ''--all'',
             ''--accept-package-agreements'', ''--accept-source-agreements''],
        Print FinishedAll]
   \<and> invocations (selection_loop 4300 failing_tool 1 example_packages [''0'', ''1'', ''2''])
       = [[''winget'', ''upgrade'', ''--all'',
           ''--accept-package-agreements'', ''--accept-source-agreements'']]"
proof -
  have h: "strip ''0'' = ''0''" by (simp add: strip_def isspace_def)
  have t: "failing_tool 1 [''winget'', ''upgrade'', ''--all'',
        ''--accept-package-agreements'', ''--accept-source-agreements'']
      = Completed \<lparr>returncode = 1, stdout = [], stderr = ''failed''\<rparr>"
    by (simp add: failing_tool_def)
  note w = upgrade_all_ends_loop [of "''0''" failing_tool 1 4300 example_packages
      "[''1'', ''2'']" example_packages, OF h]
  from w t have "selection_loop 4300 failing_tool 1 example_packages [''0'', ''1'', ''2''] =
       [Print (Menu example_packages), Prompt (length example_packages), Print StartingAll,
        Run [''winget'', ''upgrade'', ''--all'',
             ''--accept-package-agreements'', ''--accept-source-agreements''],
        Print FinishedAll]"
    by blast
  moreover from w
  have "invocations (selection_loop 4300 failing_tool 1 example_packages [''0'', ''1'', ''2''])
       = [[''winget'', ''upgrade'', ''--all'',
           ''--accept-package-agreements'', ''--accept-source-agreements'']]"
    by blast
  ultimately show ?thesis using h by blast
qed

text \<open>
  C6. When the trimmed console line is \<^verbatim>\<open>c\<close> or \<^verbatim>\<open>C\<close>, the run ends with the
  cancellation message and without any external invocation.
\<close>

theorem cancel_ends_loop:
  assumes "strip raw = ''c'' \<or> strip raw = ''C''"
  shows
    "selection_loop lim tool k packages (raw # stdin) =
       [Print (Menu packages), Prompt (length packages), Print Canceled]
     \<and> invocations (selection_loop lim tool k packages (raw # stdin)) = []"
proof -
  from assms have "lower (strip raw) = ''c''" by (simp add: lower_c)
  then show ?thesis
    by (simp only: loop_step_cancel) (simp add: invocations_def)
qed

theorem cancel_ends_loop_witness:
  "(strip '' C'' = ''c'' \<or> strip '' C'' = ''C'')
   \<and> selection_loop 4300 failing_tool 1 example_packages ['' C'', ''1''] =
       [Print (Menu example_packages), Prompt (length example_packages), Print Canceled]
   \<and> invocations (selection_loop 4300 failing_tool 1 example_packages ['' C'', ''1'']) = []"
proof -
  have h: "strip '' C'' = ''c'' \<or> strip '' C'' = ''C''"
    by (simp add: strip_def isspace_def)
  note w = cancel_ends_loop [of "'' C''" 4300 failing_tool 1 example_packages "[''1'']", OF h]
  from w h show ?thesis by blast
qed

end
